theory Spec2Isabelle
  imports Main "HOL-Library.Sublist"
begin

section \<open>Strings of the bridge\<close>

text \<open>
  A JavaScript string is a sequence of code units; it is modelled as a \<^typ>\<open>string\<close>, one
  \<^typ>\<open>char\<close> per code unit, for the code units below 256 (Basic Latin and Latin-1).
  \<open>length\<close> is then \<^verbatim>\<open>.length\<close> and \<open>!\<close> is indexing. The symbols the program writes in
  its own literals and that lie outside this range (the emoji) are spelt by their UTF-8
  bytes; the program only passes them on, it never inspects them.
\<close>

definition isUpperCase :: "char \<Rightarrow> bool" where
  \<comment> \<open>the code units below 256 that \<^verbatim>\<open>toLowerCase\<close> changes: A-Z and the Latin-1 capitals
      U+00C0..U+00DE without the multiplication sign U+00D7\<close>
  "isUpperCase c =
     (let n = (of_char c :: nat)
      in (65 \<le> n \<and> n \<le> 90) \<or> (192 \<le> n \<and> n \<le> 214) \<or> (216 \<le> n \<and> n \<le> 222))"

definition lowerCaseUnit :: "char \<Rightarrow> char" where
  "lowerCaseUnit c = (if isUpperCase c then char_of ((of_char c :: nat) + 32) else c)"

definition toLowerCase :: "string \<Rightarrow> string" where
  \<comment> \<open>\<^verbatim>\<open>String.prototype.toLowerCase\<close>\<close>
  "toLowerCase s = map lowerCaseUnit s"

definition isWhiteSpace :: "char \<Rightarrow> bool" where
  \<comment> \<open>what \<^verbatim>\<open>trim\<close> removes, below 256: TAB, LF, VT, FF, CR, SP and NBSP\<close>
  "isWhiteSpace c = ((of_char c :: nat) \<in> {9, 10, 11, 12, 13, 32, 160})"

definition trim :: "string \<Rightarrow> string" where
  \<comment> \<open>\<^verbatim>\<open>String.prototype.trim\<close>: white space is dropped at both ends\<close>
  "trim s = rev (dropWhile isWhiteSpace (rev (dropWhile isWhiteSpace s)))"

fun includes_str :: "string \<Rightarrow> string \<Rightarrow> bool" where
  \<comment> \<open>\<^verbatim>\<open>s.includes(t)\<close>: \<open>t\<close> occurs in \<open>s\<close> at some position\<close>
  "includes_str [] t = (t = [])"
| "includes_str (c # cs) t = (prefix t (c # cs) \<or> includes_str cs t)"

definition endsWith :: "string \<Rightarrow> string \<Rightarrow> bool" where
  \<comment> \<open>\<^verbatim>\<open>s.endsWith(t)\<close>\<close>
  "endsWith s t = suffix t s"

definition check_mark :: string where
  \<comment> \<open>U+2705\<close>
  "check_mark = [CHR 0xE2, CHR 0x9C, CHR 0x85]"

definition sparkles :: string where
  \<comment> \<open>U+2728\<close>
  "sparkles = [CHR 0xE2, CHR 0x9C, CHR 0xA8]"

definition magnifier :: string where
  \<comment> \<open>U+1F50D\<close>
  "magnifier = [CHR 0xF0, CHR 0x9F, CHR 0x94, CHR 0x8D]"

definition memo :: string where
  \<comment> \<open>U+1F4DD\<close>
  "memo = [CHR 0xF0, CHR 0x9F, CHR 0x93, CHR 0x9D]"

definition quizMessage :: "string \<Rightarrow> string" where
  \<comment> \<open>the template literal of \<^verbatim>\<open>startQuiz\<close>\<close>
  "quizMessage question =
     memo @ '' Quiz: '' @ question @ [CHR 0x0A, CHR 0x0A] @ ''Reply with your answer!''"

definition correctMessage :: string where
  "correctMessage = check_mark @ '' Correct!''"


section \<open>kotaete.ts: the edit distance\<close>

text \<open>
  \<^verbatim>\<open>levenshteinDistance\<close> fills a table \<open>dp\<close> of \<open>m + 1\<close> rows and \<open>n + 1\<close> columns in
  place. The table is a list of rows; \<open>setCell\<close> is the assignment \<^verbatim>\<open>dp[i][j] = v\<close>. Every
  index the loops use lies inside the table and inside the strings, so no read or write
  of the source is out of range. The entries are JavaScript numbers holding integers no
  larger than \<open>m + n\<close>; they are natural numbers here.
\<close>

definition setCell :: "nat list list \<Rightarrow> nat \<Rightarrow> nat \<Rightarrow> nat \<Rightarrow> nat list list" where
  "setCell dp i j v = dp[i := (dp ! i)[j := v]]"

definition cellStep :: "string \<Rightarrow> string \<Rightarrow> nat \<Rightarrow> nat \<Rightarrow> nat list list \<Rightarrow> nat list list" where
  \<comment> \<open>the body of the inner loop\<close>
  "cellStep str1 str2 i j dp =
     (if str1 ! (i - 1) = str2 ! (j - 1)
      then setCell dp i j (dp ! (i - 1) ! (j - 1))
      else setCell dp i j
             (1 + min (dp ! (i - 1) ! j) (min (dp ! i ! (j - 1)) (dp ! (i - 1) ! (j - 1)))))"

definition levenshteinDistance :: "string \<Rightarrow> string \<Rightarrow> nat" where
  "levenshteinDistance str1 str2 =
     (let m = length str1;
          n = length str2;
          dp0 = replicate (m + 1) (replicate (n + 1) 0);
          dp1 = fold (\<lambda>i dp. setCell dp i 0 i) [0..<m + 1] dp0;
          dp2 = fold (\<lambda>j dp. setCell dp 0 j j) [0..<n + 1] dp1;
          dp3 = fold (\<lambda>i dp. fold (\<lambda>j dp. cellStep str1 str2 i j dp) [1..<n + 1] dp)
                     [1..<m + 1] dp2
      in dp3 ! m ! n)"

definition isCloseMatch :: "string \<Rightarrow> string \<Rightarrow> bool" where
  \<comment> \<open>\<^verbatim>\<open>Math.floor(answer1.length * 0.1)\<close> is \<open>length answer1 div 10\<close> for every length a
      string can have: the double nearest to 0.1 exceeds 0.1 by less than 1e-17, so for a
      length below 2^32 the rounded product neither reaches the next integer nor falls
      under an exact multiple of ten.\<close>
  "isCloseMatch answer1 answer2 =
     (let distance = levenshteinDistance answer1 answer2
      in if length answer1 \<le> 10 \<and> distance \<le> 2 then True
         else if length answer1 > 10
              then (let maxDistance = max 3 (length answer1 div 10)
                    in distance \<le> maxDistance)
              else False)"


section \<open>kotaete.ts: the quiz engine\<close>

record QuizState =
  active :: bool
  question :: string
  correctAnswer :: string
  startTime :: nat
  chatId :: string
  messageId :: "string option"

datatype reason = Answered | Timeout | Cancelled

record MessageKey =
  keyId :: string
  remoteJid :: string

datatype error = Error string

text \<open>
  The engine acts on the outside through the \<^verbatim>\<open>MessageSender\<close> it was built with and
  through the two optional callbacks. Both are functions on a world \<open>'w\<close> that the model
  threads through every call: a send either throws (\<open>Inl\<close>) or returns, and in both cases
  leaves a new world; a callback returns a new world. A statement that holds for every
  sender and every callback and says the world is left as it was says that neither was
  called. Each \<^verbatim>\<open>await\<close> is a sequence point; the model runs one call to completion.
\<close>

record 'w MessageSender =
  sendMessage :: "string \<Rightarrow> string \<Rightarrow> 'w \<Rightarrow> (error + unit) \<times> 'w"
  sendReact :: "string \<Rightarrow> string \<Rightarrow> MessageKey \<Rightarrow> 'w \<Rightarrow> (error + unit) \<times> 'w"

record 'w KotaeteOptions =
  onQuizStart :: "(QuizState \<Rightarrow> 'w \<Rightarrow> 'w) option"
  onQuizEnd :: "(reason \<Rightarrow> 'w \<Rightarrow> 'w) option"

record 'w Kotaete =
  sender :: "'w MessageSender"
  currentQuiz :: "QuizState option"
  options :: "'w KotaeteOptions"

definition optionalCall :: "('a \<Rightarrow> 'w \<Rightarrow> 'w) option \<Rightarrow> 'a \<Rightarrow> 'w \<Rightarrow> 'w" where
  \<comment> \<open>\<^verbatim>\<open>callback?.(x)\<close>\<close>
  "optionalCall cb x w = (case cb of None \<Rightarrow> w | Some f \<Rightarrow> f x w)"

definition startQuiz ::
  "string \<Rightarrow> string \<Rightarrow> string \<Rightarrow> string option \<Rightarrow> nat \<Rightarrow> 'w Kotaete \<Rightarrow> 'w
     \<Rightarrow> (error + unit) \<times> 'w Kotaete \<times> 'w" where
  \<comment> \<open>\<open>now\<close> is what \<^verbatim>\<open>Date.now()\<close> returns when the session is built\<close>
  "startQuiz chat quest answer replyToMessageId now k w =
     (case currentQuiz k of
        Some _ \<Rightarrow> (Inl (Error ''A quiz is already active''), k, w)
      | None \<Rightarrow>
          (case sendMessage (sender k) chat (quizMessage quest) w of
             (Inl e, w1) \<Rightarrow> (Inl e, k, w1)
           | (Inr _, w1) \<Rightarrow>
               (let quiz = \<lparr>active = True, question = quest,
                            correctAnswer = trim (toLowerCase answer),
                            startTime = now, chatId = chat,
                            messageId = replyToMessageId\<rparr>
                in (Inr (), k\<lparr>currentQuiz := Some quiz\<rparr>,
                    optionalCall (onQuizStart (options k)) quiz w1))))"

definition endQuiz :: "reason \<Rightarrow> 'w Kotaete \<Rightarrow> 'w \<Rightarrow> 'w Kotaete \<times> 'w" where
  "endQuiz r k w =
     (case currentQuiz k of
        None \<Rightarrow> (k, w)
      | Some quiz \<Rightarrow> (k\<lparr>currentQuiz := None\<rparr>, optionalCall (onQuizEnd (options k)) r w))"

definition checkAnswer ::
  "string \<Rightarrow> string \<Rightarrow> MessageKey \<Rightarrow> 'w Kotaete \<Rightarrow> 'w \<Rightarrow> (error + unit) \<times> 'w Kotaete \<times> 'w" where
  "checkAnswer chat messageContent messageKey k w =
     (case currentQuiz k of
        None \<Rightarrow> (Inr (), k, w)
      | Some quiz \<Rightarrow>
          if chatId quiz \<noteq> chat then (Inr (), k, w)
          else
            (let userAnswer = trim (toLowerCase messageContent);
                 correct = correctAnswer quiz
             in if userAnswer = correct then
                  (case sendReact (sender k) chat check_mark messageKey w of
                     (Inl e, w1) \<Rightarrow> (Inl e, k, w1)
                   | (Inr _, w1) \<Rightarrow>
                       (case sendMessage (sender k) chat correctMessage w1 of
                          (Inl e, w2) \<Rightarrow> (Inl e, k, w2)
                        | (Inr _, w2) \<Rightarrow>
                            (case endQuiz Answered k w2 of (k', w3) \<Rightarrow> (Inr (), k', w3))))
                else if includes_str userAnswer correct \<or> includes_str correct userAnswer then
                  (case sendReact (sender k) chat sparkles messageKey w of
                     (r, w1) \<Rightarrow> (r, k, w1))
                else if isCloseMatch userAnswer correct then
                  (case sendReact (sender k) chat magnifier messageKey w of
                     (r, w1) \<Rightarrow> (r, k, w1))
                else (Inr (), k, w)))"

definition getQuiz :: "'w Kotaete \<Rightarrow> QuizState option" where
  "getQuiz k = currentQuiz k"

definition isQuizActive :: "'w Kotaete \<Rightarrow> bool" where
  "isQuizActive k = (currentQuiz k \<noteq> None)"

text \<open>
  The engine as \<^verbatim>\<open>BridgeServer.createKotaete\<close> builds it: the sender hands each call to
  the client and the callbacks broadcast an event. Here the world is the list of what
  was sent and broadcast, oldest first.
\<close>

datatype event =
    SentMessage string string
  | SentReact string string MessageKey
  | QuizStarted QuizState
  | QuizEnded reason

definition recordingSender :: "event list MessageSender" where
  "recordingSender =
     \<lparr>sendMessage = (\<lambda>to text w. (Inr (), w @ [SentMessage to text])),
      sendReact = (\<lambda>to emoji key w. (Inr (), w @ [SentReact to emoji key]))\<rparr>"

definition disconnectedSender :: "event list MessageSender" where
  \<comment> \<open>the client without a socket: both sends throw \<^verbatim>\<open>Error('Not connected')\<close>\<close>
  "disconnectedSender =
     \<lparr>sendMessage = (\<lambda>to text w. (Inl (Error ''Not connected''), w)),
      sendReact = (\<lambda>to emoji key w. (Inl (Error ''Not connected''), w))\<rparr>"

definition broadcastOptions :: "event list KotaeteOptions" where
  "broadcastOptions =
     \<lparr>onQuizStart = Some (\<lambda>quiz w. w @ [QuizStarted quiz]),
      onQuizEnd = Some (\<lambda>r w. w @ [QuizEnded r])\<rparr>"

definition createKotaete :: "event list Kotaete" where
  "createKotaete = \<lparr>sender = recordingSender, currentQuiz = None, options = broadcastOptions\<rparr>"


section \<open>whatsapp.ts: identity resolution and the mention filter\<close>

definition isDigit :: "char \<Rightarrow> bool" where
  \<comment> \<open>the class \<^verbatim>\<open>\d\<close>\<close>
  "isDigit c = (let n = (of_char c :: nat) in 48 \<le> n \<and> n \<le> 57)"

definition deviceSuffixAt :: "string \<Rightarrow> bool" where
  \<comment> \<open>the pattern \<^verbatim>\<open>:\d+@s\.whatsapp\.net$\<close> matches the whole of the string: a colon, one
      digit or more, the server name, the end\<close>
  "deviceSuffixAt s =
     (case s of
        [] \<Rightarrow> False
      | c # rest \<Rightarrow>
          c = CHR '':'' \<and> takeWhile isDigit rest \<noteq> [] \<and>
          dropWhile isDigit rest = ''@s.whatsapp.net'')"

fun stripDeviceSuffix :: "string \<Rightarrow> string" where
  \<comment> \<open>\<^verbatim>\<open>.replace(/:\d+@s\.whatsapp\.net$/, '')\<close>: the leftmost match is removed\<close>
  "stripDeviceSuffix [] = []"
| "stripDeviceSuffix (c # cs) =
     (if deviceSuffixAt (c # cs) then [] else c # stripDeviceSuffix cs)"

fun removeFirst :: "string \<Rightarrow> string \<Rightarrow> string" where
  \<comment> \<open>\<^verbatim>\<open>s.replace(pat, '')\<close> for a string pattern: the first occurrence is removed\<close>
  "removeFirst pat [] = []"
| "removeFirst pat (c # cs) =
     (if prefix pat (c # cs) then drop (length pat) (c # cs) else c # removeFirst pat cs)"

record SignalRepository =
  lidMapping :: "(string \<Rightarrow> string option) option"

record WASocket =
  signalRepository :: "SignalRepository option"

record WhatsAppClient =
  sock :: "WASocket option"

definition sockLidMapping :: "WhatsAppClient \<Rightarrow> (string \<Rightarrow> string option) option" where
  \<comment> \<open>\<^verbatim>\<open>this.sock?.signalRepository?.lidMapping\<close>; the function it holds is
      \<^verbatim>\<open>getPNForLID\<close>, \<open>None\<close> for \<^verbatim>\<open>null\<close>\<close>
  "sockLidMapping c =
     (case sock c of
        None \<Rightarrow> None
      | Some s \<Rightarrow> (case signalRepository s of None \<Rightarrow> None | Some r \<Rightarrow> lidMapping r))"

text \<open>
  To state which resolutions a call performs, the model keeps a log of calls, oldest
  first: \<open>Resolve jid\<close> for each entry into \<^verbatim>\<open>resolveAndSanitizePhoneNumber\<close> and
  \<open>GetPNForLID jid\<close> for each directory lookup it awaits.
\<close>

datatype call = Resolve string | GetPNForLID string

definition resolveAndSanitizePhoneNumber ::
  "WhatsAppClient \<Rightarrow> string \<Rightarrow> call list \<Rightarrow> string \<times> call list" where
  "resolveAndSanitizePhoneNumber c jid log =
     (let log1 = log @ [Resolve jid];
          (resolved, log2) =
            (case (if endsWith jid ''@lid'' then sockLidMapping c else None) of
               None \<Rightarrow> (jid, log1)
             | Some getPNForLID \<Rightarrow>
                 (case getPNForLID jid of
                    None \<Rightarrow> (jid, log1 @ [GetPNForLID jid])
                  | Some pn \<Rightarrow> (if pn \<noteq> [] then pn else jid, log1 @ [GetPNForLID jid])))
      in (removeFirst ''@s.whatsapp.net'' (stripDeviceSuffix resolved), log2))"

fun mentionLoop ::
  "WhatsAppClient \<Rightarrow> string \<Rightarrow> string list \<Rightarrow> call list \<Rightarrow> bool \<times> call list" where
  \<comment> \<open>the \<^verbatim>\<open>for\<close> loop of \<^verbatim>\<open>isUserMentioned\<close>\<close>
  "mentionLoop c userPn [] log = (False, log)"
| "mentionLoop c userPn (mention # rest) log =
     (case resolveAndSanitizePhoneNumber c mention log of
        (mentionPn, log1) \<Rightarrow>
          if mentionPn = userPn then (True, log1) else mentionLoop c userPn rest log1)"

definition isUserMentioned ::
  "WhatsAppClient \<Rightarrow> string list \<Rightarrow> string \<Rightarrow> call list \<Rightarrow> bool \<times> call list" where
  "isUserMentioned c mentions userJid log =
     (case resolveAndSanitizePhoneNumber c userJid log of
        (userPn, log1) \<Rightarrow> mentionLoop c userPn mentions log1)"

definition clientWith :: "(string \<Rightarrow> string option) \<Rightarrow> WhatsAppClient" where
  \<comment> \<open>a connected client whose socket has a directory of linked identities\<close>
  "clientWith getPNForLID =
     \<lparr>sock = Some \<lparr>signalRepository = Some \<lparr>lidMapping = Some getPNForLID\<rparr>\<rparr>\<rparr>"

definition digitsOnly :: "string \<Rightarrow> bool" where
  "digitsOnly s = list_all isDigit s"


section \<open>The specification's matcher and resolver\<close>

text \<open>
  The definitions of this section follow the words of the specification; the theorems
  compare them with the program.
\<close>

datatype match = Exact | Partial | Close | NoMatch

definition normalizeAnswer :: "string \<Rightarrow> string" where
  \<comment> \<open>"lower-case, trim whitespace"\<close>
  "normalizeAnswer s = trim (toLowerCase s)"

fun editTable :: "string \<Rightarrow> string \<Rightarrow> nat \<Rightarrow> nat \<Rightarrow> nat" where
  \<comment> \<open>the recurrence of the specification: base cases \<open>dp[i][0] = i\<close> and \<open>dp[0][j] = j\<close>,
      the diagonal entry where the characters agree, else one more than the least of
      the three neighbours\<close>
  "editTable a b 0 j = j"
| "editTable a b (Suc i) 0 = Suc i"
| "editTable a b (Suc i) (Suc j) =
     (if a ! i = b ! j then editTable a b i j
      else 1 + min (editTable a b i (Suc j)) (min (editTable a b (Suc i) j) (editTable a b i j)))"

definition editDistance :: "string \<Rightarrow> string \<Rightarrow> nat" where
  "editDistance a b = editTable a b (length a) (length b)"

text \<open>
  "Levenshtein: minimum insert/delete/substitute operations, unit cost". One operation
  inserts, deletes or replaces one character anywhere in the string; \<open>edits xs ys n\<close>
  says that \<open>n\<close> operations in a row turn \<open>xs\<close> into \<open>ys\<close>. An alignment is the same
  thing read along the two strings, from their ends: it keeps, replaces, deletes or
  inserts the last character, and its cost counts all but the kept ones.
\<close>

inductive edit :: "string \<Rightarrow> string \<Rightarrow> bool" where
  insertion: "edit (u @ v) (u @ [c] @ v)"
| deletion: "edit (u @ [c] @ v) (u @ v)"
| substitution: "edit (u @ [c] @ v) (u @ [d] @ v)"

inductive edits :: "string \<Rightarrow> string \<Rightarrow> nat \<Rightarrow> bool" where
  no_edit: "edits xs xs 0"
| one_more: "edits xs ys n \<Longrightarrow> edit ys zs \<Longrightarrow> edits xs zs (Suc n)"

inductive alignment :: "string \<Rightarrow> string \<Rightarrow> nat \<Rightarrow> bool" where
  finished: "alignment [] [] 0"
| keepLast: "alignment xs ys n \<Longrightarrow> alignment (xs @ [c]) (ys @ [c]) n"
| substituteLast: "alignment xs ys n \<Longrightarrow> alignment (xs @ [c]) (ys @ [d]) (Suc n)"
| deleteLast: "alignment xs ys n \<Longrightarrow> alignment (xs @ [c]) ys (Suc n)"
| insertLast: "alignment xs ys n \<Longrightarrow> alignment xs (ys @ [d]) (Suc n)"

definition classifyBy :: "nat \<Rightarrow> string \<Rightarrow> string \<Rightarrow> match" where
  \<comment> \<open>steps 2 to 5 on the normalized strings, for a length \<open>L\<close>\<close>
  "classifyBy L c a =
     (if c = a then Exact
      else if sublist a c \<or> sublist c a then Partial
      else if (if L \<le> 10 then editDistance c a \<le> 2
               else editDistance c a \<le> max 3 (L div 10)) then Close
      else NoMatch)"

definition classify_spec :: "string \<Rightarrow> string \<Rightarrow> match" where
  \<comment> \<open>as the specification words it: "Let \<open>L = length(candidate)\<close>", the string that was
      passed to the matcher\<close>
  "classify_spec candidate correct =
     classifyBy (length candidate) (normalizeAnswer candidate) (normalizeAnswer correct)"

definition classify :: "string \<Rightarrow> string \<Rightarrow> match" where
  \<comment> \<open>the same with \<open>L\<close> the length of the candidate after normalization\<close>
  "classify candidate correct =
     classifyBy (length (normalizeAnswer candidate)) (normalizeAnswer candidate)
       (normalizeAnswer correct)"

definition respond ::
  "match \<Rightarrow> string \<Rightarrow> MessageKey \<Rightarrow> 'w Kotaete \<Rightarrow> 'w \<Rightarrow> (error + unit) \<times> 'w Kotaete \<times> 'w" where
  \<comment> \<open>the row of \<open>checkAnswer\<close> in the transition table: what the engine does for each
      class; a send that fails ends the call with its error\<close>
  "respond cls chat messageKey k w =
     (case cls of
        Exact \<Rightarrow>
          (case sendReact (sender k) chat check_mark messageKey w of
             (Inl e, w1) \<Rightarrow> (Inl e, k, w1)
           | (Inr _, w1) \<Rightarrow>
               (case sendMessage (sender k) chat correctMessage w1 of
                  (Inl e, w2) \<Rightarrow> (Inl e, k, w2)
                | (Inr _, w2) \<Rightarrow>
                    (Inr (), k\<lparr>currentQuiz := None\<rparr>,
                     optionalCall (onQuizEnd (options k)) Answered w2)))
      | Partial \<Rightarrow>
          (case sendReact (sender k) chat sparkles messageKey w of (r, w1) \<Rightarrow> (r, k, w1))
      | Close \<Rightarrow>
          (case sendReact (sender k) chat magnifier messageKey w of (r, w1) \<Rightarrow> (r, k, w1))
      | NoMatch \<Rightarrow> (Inr (), k, w))"

definition reaction :: "match \<Rightarrow> string \<Rightarrow> MessageKey \<Rightarrow> event list" where
  \<comment> \<open>what a recording engine shows for each class\<close>
  "reaction cls chat messageKey =
     (case cls of
        Exact \<Rightarrow> [SentReact chat check_mark messageKey, SentMessage chat correctMessage,
                   QuizEnded Answered]
      | Partial \<Rightarrow> [SentReact chat sparkles messageKey]
      | Close \<Rightarrow> [SentReact chat magnifier messageKey]
      | NoMatch \<Rightarrow> [])"

fun uptoFirst :: "('a \<Rightarrow> bool) \<Rightarrow> 'a list \<Rightarrow> 'a list" where
  \<comment> \<open>the entries of a list up to the first that satisfies \<open>P\<close>, that one included\<close>
  "uptoFirst P [] = []"
| "uptoFirst P (x # xs) = (if P x then [x] else x # uptoFirst P xs)"

definition canonical :: "WhatsAppClient \<Rightarrow> string \<Rightarrow> string" where
  \<comment> \<open>the canonical form \<open>resolve\<close> returns\<close>
  "canonical c jid = fst (resolveAndSanitizePhoneNumber c jid [])"

definition callsOf :: "WhatsAppClient \<Rightarrow> string \<Rightarrow> call list" where
  \<comment> \<open>the calls one resolution makes\<close>
  "callsOf c jid = snd (resolveAndSanitizePhoneNumber c jid [])"


section \<open>Invariants and concrete instances used by the theorems\<close>

definition tableShape :: "nat \<Rightarrow> nat \<Rightarrow> nat list list \<Rightarrow> bool" where
  \<comment> \<open>\<open>m + 1\<close> rows of \<open>n + 1\<close> entries\<close>
  "tableShape m n dp = (length dp = Suc m \<and> (\<forall>i \<le> m. length (dp ! i) = Suc n))"

definition filled :: "string \<Rightarrow> string \<Rightarrow> nat \<Rightarrow> nat \<Rightarrow> nat list list \<Rightarrow> bool" where
  \<comment> \<open>the loop invariant: row 0, column 0, the rows above \<open>i\<close> and row \<open>i\<close> left of
      column \<open>j\<close> hold the entries of the recurrence\<close>
  "filled a b i j dp =
     (tableShape (length a) (length b) dp \<and>
      (\<forall>i' \<le> length a. \<forall>j' \<le> length b.
         (i' = 0 \<or> j' = 0 \<or> i' < i \<or> (i' = i \<and> j' < j)) \<longrightarrow>
         dp ! i' ! j' = editTable a b i' j'))"

definition messageRef :: MessageKey where
  "messageRef = \<lparr>keyId = ''3EB0ABCDEF'', remoteJid = ''G1''\<rparr>"

definition parisQuiz :: "event list Kotaete" where
  \<comment> \<open>the recording engine after \<^verbatim>\<open>startQuiz("G1", "Q", "Paris")\<close>\<close>
  "parisQuiz = fst (snd (startQuiz ''G1'' ''Q'' ''Paris'' None 0 createKotaete []))"

definition fourQuiz :: "event list Kotaete" where
  \<comment> \<open>the recording engine after \<^verbatim>\<open>startQuiz("G1", "Q", "4")\<close>\<close>
  "fourQuiz = fst (snd (startQuiz ''G1'' ''Q'' ''4'' None 0 createKotaete []))"

definition disconnectedKotaete :: "event list Kotaete" where
  "disconnectedKotaete =
     \<lparr>sender = disconnectedSender, currentQuiz = None, options = broadcastOptions\<rparr>"

definition directory :: "string \<Rightarrow> string option" where
  \<comment> \<open>a directory that knows one linked identity\<close>
  "directory = [''99@lid'' \<mapsto> ''628111@s.whatsapp.net'']"


section \<open>The table loops compute the recurrence\<close>

lemma editTable_col0: "editTable a b i 0 = i"
  by (cases i) simp_all

lemma setCell_nth:
  "i < length dp \<Longrightarrow> j < length (dp ! i) \<Longrightarrow>
   setCell dp i j v ! i' ! j' = (if i' = i \<and> j' = j then v else dp ! i' ! j')"
  by (cases "i' = i"; cases "j' = j") (simp_all add: setCell_def nth_list_update)

lemma setCell_shape:
  assumes "tableShape m n dp"
  shows "tableShape m n (setCell dp i j v)"
proof (cases "i < length dp")
  case True
  with assms show ?thesis
    by (auto simp: tableShape_def setCell_def nth_list_update)
next
  case False
  with assms show ?thesis by (simp add: setCell_def list_update_beyond)
qed

text \<open>The first loop writes column 0.\<close>

lemma firstColumn:
  assumes "tableShape m n dp" "k \<le> Suc m"
  shows "tableShape m n (fold (\<lambda>i dp. setCell dp i 0 i) [0..<k] dp) \<and>
         (\<forall>i < k. fold (\<lambda>i dp. setCell dp i 0 i) [0..<k] dp ! i ! 0 = i)"
  using assms(2)
proof (induction k)
  case 0
  then show ?case using assms(1) by simp
next
  case (Suc k)
  let ?dp = "fold (\<lambda>i dp. setCell dp i 0 i) [0..<k] dp"
  from Suc have sh: "tableShape m n ?dp" and old: "\<forall>i < k. ?dp ! i ! 0 = i" by simp_all
  from Suc.prems have km: "k \<le> m" by simp
  with sh have len: "k < length ?dp" "0 < length (?dp ! k)" by (simp_all add: tableShape_def)
  have "\<forall>i < Suc k. setCell ?dp k 0 k ! i ! 0 = i"
    using old by (simp add: setCell_nth [OF len] less_Suc_eq)
  with sh show ?case by (simp add: setCell_shape)
qed

text \<open>The second loop writes row 0 and leaves the other rows alone.\<close>

lemma firstRow:
  assumes "tableShape m n dp" "k \<le> Suc n"
  shows "tableShape m n (fold (\<lambda>j dp. setCell dp 0 j j) [0..<k] dp) \<and>
         (\<forall>j < k. fold (\<lambda>j dp. setCell dp 0 j j) [0..<k] dp ! 0 ! j = j) \<and>
         (\<forall>i \<le> m. 0 < i \<longrightarrow> fold (\<lambda>j dp. setCell dp 0 j j) [0..<k] dp ! i = dp ! i)"
  using assms(2)
proof (induction k)
  case 0
  then show ?case using assms(1) by simp
next
  case (Suc k)
  let ?dp = "fold (\<lambda>j dp. setCell dp 0 j j) [0..<k] dp"
  from Suc have sh: "tableShape m n ?dp" and old: "\<forall>j < k. ?dp ! 0 ! j = j"
    and rows: "\<forall>i \<le> m. 0 < i \<longrightarrow> ?dp ! i = dp ! i" by simp_all
  from Suc.prems have kn: "k \<le> n" by simp
  with sh have len: "0 < length ?dp" "k < length (?dp ! 0)" by (simp_all add: tableShape_def)
  have 1: "\<forall>j < Suc k. setCell ?dp 0 k k ! 0 ! j = j"
    using old by (simp add: setCell_nth [OF len] less_Suc_eq)
  have 2: "\<forall>i \<le> m. 0 < i \<longrightarrow> setCell ?dp 0 k k ! i = dp ! i"
    using rows by (simp add: setCell_def)
  from sh 1 2 show ?case by (simp add: setCell_shape)
qed

text \<open>One pass of the inner loop body extends the filled part of row \<open>i\<close> by one cell.\<close>

lemma cellStep_filled:
  assumes inv: "filled a b i j dp" and i: "0 < i" "i \<le> length a" and j: "0 < j" "j \<le> length b"
  shows "filled a b i (Suc j) (cellStep a b i j dp)"
proof -
  obtain i0 j0 where ij: "i = Suc i0" "j = Suc j0"
    using i(1) j(1) by (auto simp: gr0_conv_Suc)
  from inv have sh: "tableShape (length a) (length b) dp" by (simp add: filled_def)
  with i j have len: "i < length dp" "j < length (dp ! i)" by (simp_all add: tableShape_def)
  from inv i j ij have up: "dp ! i0 ! j = editTable a b i0 j"
    and left: "dp ! i ! j0 = editTable a b i j0"
    and diag: "dp ! i0 ! j0 = editTable a b i0 j0"
    by (simp_all add: filled_def)
  have new: "cellStep a b i j dp ! i ! j = editTable a b i j"
    using up left diag len by (simp add: cellStep_def setCell_nth ij)
  have other: "cellStep a b i j dp ! i' ! j' = dp ! i' ! j'" if "\<not> (i' = i \<and> j' = j)" for i' j'
    using that by (auto simp add: cellStep_def setCell_nth [OF len])
  have shape: "tableShape (length a) (length b) (cellStep a b i j dp)"
    using sh by (simp add: cellStep_def setCell_shape)
  show ?thesis
    unfolding filled_def
  proof (intro conjI allI impI)
    fix i' j'
    assume b: "i' \<le> length a" "j' \<le> length b"
      and c: "i' = 0 \<or> j' = 0 \<or> i' < i \<or> i' = i \<and> j' < Suc j"
    show "cellStep a b i j dp ! i' ! j' = editTable a b i' j'"
    proof (cases "i' = i \<and> j' = j")
      case True
      with new show ?thesis by simp
    next
      case False
      with c have "i' = 0 \<or> j' = 0 \<or> i' < i \<or> i' = i \<and> j' < j" by auto
      with inv [unfolded filled_def] b have "dp ! i' ! j' = editTable a b i' j'" by blast
      with other [OF False] show ?thesis by simp
    qed
  qed (rule shape)
qed

lemma innerLoop_filled:
  assumes "filled a b i 1 dp" "0 < i" "i \<le> length a" "k \<le> length b"
  shows "filled a b i (Suc k) (fold (\<lambda>j dp. cellStep a b i j dp) [1..<Suc k] dp)"
  using assms(4)
proof (induction k)
  case 0
  then show ?case using assms(1) by simp
next
  case (Suc k)
  then have "filled a b i (Suc k) (fold (\<lambda>j dp. cellStep a b i j dp) [1..<Suc k] dp)" by simp
  from cellStep_filled [OF this assms(2,3)] Suc.prems show ?case by simp
qed

lemma nextRow_filled:
  assumes "filled a b i (Suc (length b)) dp"
  shows "filled a b (Suc i) 1 dp"
  unfolding filled_def
proof (intro conjI allI impI)
  fix i' j'
  assume b: "i' \<le> length a" "j' \<le> length b"
    and c: "i' = 0 \<or> j' = 0 \<or> i' < Suc i \<or> i' = Suc i \<and> j' < 1"
  then have "i' = 0 \<or> j' = 0 \<or> i' < i \<or> i' = i \<and> j' < Suc (length b)" by auto
  with assms [unfolded filled_def] b show "dp ! i' ! j' = editTable a b i' j'" by blast
next
  from assms show "tableShape (length a) (length b) dp" by (simp add: filled_def)
qed

lemma outerLoop_filled:
  assumes "filled a b 1 1 dp" "k \<le> length a"
  shows "filled a b (Suc k) 1
           (fold (\<lambda>i dp. fold (\<lambda>j dp. cellStep a b i j dp) [1..<length b + 1] dp) [1..<Suc k] dp)"
  using assms(2)
proof (induction k)
  case 0
  then show ?case using assms(1) by simp
next
  case (Suc k)
  let ?dp = "fold (\<lambda>i dp. fold (\<lambda>j dp. cellStep a b i j dp) [1..<length b + 1] dp) [1..<Suc k] dp"
  from Suc have "filled a b (Suc k) 1 ?dp" by simp
  from innerLoop_filled [OF this, of "length b"] Suc.prems
  have "filled a b (Suc k) (Suc (length b))
          (fold (\<lambda>j dp. cellStep a b (Suc k) j dp) [1..<Suc (length b)] ?dp)" by simp
  from nextRow_filled [OF this] show ?case by simp
qed

text \<open>The value the function returns is the last entry of the recurrence.\<close>

lemma levenshteinDistance_editDistance: "levenshteinDistance a b = editDistance a b"
proof -
  let ?m = "length a" and ?n = "length b"
  let ?dp0 = "replicate (?m + 1) (replicate (?n + 1) (0::nat))"
  let ?dp1 = "fold (\<lambda>i dp. setCell dp i 0 i) [0..<?m + 1] ?dp0"
  let ?dp2 = "fold (\<lambda>j dp. setCell dp 0 j j) [0..<?n + 1] ?dp1"
  let ?dp3 = "fold (\<lambda>i dp. fold (\<lambda>j dp. cellStep a b i j dp) [1..<?n + 1] dp) [1..<?m + 1] ?dp2"
  have sh0: "tableShape ?m ?n ?dp0"
    by (simp add: tableShape_def nth_Cons')
  from firstColumn [OF sh0, of "Suc ?m"]
  have sh1: "tableShape ?m ?n ?dp1" and col: "\<forall>i \<le> ?m. ?dp1 ! i ! 0 = i"
    by (simp_all add: less_Suc_eq_le)
  from firstRow [OF sh1, of "Suc ?n"]
  have sh2: "tableShape ?m ?n ?dp2" and row: "\<forall>j \<le> ?n. ?dp2 ! 0 ! j = j"
    and rest: "\<forall>i \<le> ?m. 0 < i \<longrightarrow> ?dp2 ! i = ?dp1 ! i"
    by (simp_all add: less_Suc_eq_le)
  have "filled a b 1 1 ?dp2"
    unfolding filled_def
  proof (intro conjI allI impI)
    fix i' j'
    assume b: "i' \<le> ?m" "j' \<le> ?n" and c: "i' = 0 \<or> j' = 0 \<or> i' < 1 \<or> i' = 1 \<and> j' < 1"
    show "?dp2 ! i' ! j' = editTable a b i' j'"
    proof (cases "i' = 0")
      case True
      with row b show ?thesis by simp
    next
      case False
      with c have "j' = 0" by auto
      with False rest col b show ?thesis by (simp add: editTable_col0)
    qed
  qed (rule sh2)
  from outerLoop_filled [OF this, of ?m]
  have "filled a b (Suc ?m) 1 ?dp3" by simp
  then have "?dp3 ! ?m ! ?n = editTable a b ?m ?n" by (simp add: filled_def)
  then show ?thesis by (simp add: levenshteinDistance_def editDistance_def Let_def)
qed

lemma editTable_sym: "editTable a b i j = editTable b a j i"
  by (induction a b i j rule: editTable.induct)
    (auto simp: editTable_col0 min.commute min.left_commute)


section \<open>The recurrence is the Levenshtein distance\<close>

text \<open>
  The entries of the table change by at most one when a string grows by a character.
\<close>

lemma editTable_steps:
  "editTable a b i j \<le> Suc (editTable a b i (Suc j)) \<and>
   editTable a b (Suc i) j \<le> Suc (editTable a b i j)"
proof (induction i arbitrary: j)
  case 0
  show ?case by (cases j) (auto simp: min_def)
next
  case (Suc i)
  have A: "editTable a b i j \<le> Suc (editTable a b i (Suc j))" for j using Suc.IH by simp
  have B: "editTable a b (Suc i) j \<le> Suc (editTable a b i j)" for j using Suc.IH by simp
  have A': "editTable a b (Suc i) j \<le> Suc (editTable a b (Suc i) (Suc j))" for j
    using A [of j] B [of j] by (simp add: min_def)
  have "editTable a b (Suc (Suc i)) j \<le> Suc (editTable a b (Suc i) j)"
  proof (cases j)
    case 0
    then show ?thesis by simp
  next
    case (Suc j')
    with A' [of j'] show ?thesis by (simp add: min_def)
  qed
  with A' show ?case by simp
qed

lemma editTable_prefix:
  "i \<le> length a \<Longrightarrow> j \<le> length b \<Longrightarrow> editTable (a @ a') (b @ b') i j = editTable a b i j"
  by (induction a b i j rule: editTable.induct) (simp_all add: nth_append)

lemma editDistance_Nil: "editDistance [] ys = length ys" "editDistance xs [] = length xs"
  by (simp_all add: editDistance_def editTable_col0)

lemma editDistance_snoc:
  "editDistance (xs @ [c]) (ys @ [d]) =
     (if c = d then editDistance xs ys
      else 1 + min (editDistance xs (ys @ [d])) (min (editDistance (xs @ [c]) ys) (editDistance xs ys)))"
  using editTable_prefix [of "length xs" xs "length ys" ys "[c]" "[d]"]
    editTable_prefix [of "length xs" xs "Suc (length ys)" "ys @ [d]" "[c]" "[]"]
    editTable_prefix [of "Suc (length xs)" "xs @ [c]" "length ys" ys "[]" "[d]"]
  by (auto simp: editDistance_def)

lemma editDistance_longer:
  "editDistance (xs @ [c]) ys \<le> Suc (editDistance xs ys)"
  "editDistance xs (ys @ [d]) \<le> Suc (editDistance xs ys)"
proof -
  show "editDistance (xs @ [c]) ys \<le> Suc (editDistance xs ys)"
    using editTable_steps [of "xs @ [c]" ys "length xs" "length ys"]
      editTable_prefix [of "length xs" xs "length ys" ys "[c]" "[]"]
    by (simp add: editDistance_def)
  show "editDistance xs (ys @ [d]) \<le> Suc (editDistance xs ys)"
    using editTable_steps [of "ys @ [d]" xs "length ys" "length xs"]
      editTable_prefix [of "length ys" ys "length xs" xs "[d]" "[]"]
    by (simp add: editDistance_def editTable_sym [of _ "ys @ [d]"] editTable_sym [of xs ys])
qed

text \<open>The distance is the cost of an alignment, and no alignment is cheaper.\<close>

lemma alignment_editDistance: "alignment xs ys (editDistance xs ys)"
proof (induction xs arbitrary: ys rule: rev_induct)
  case Nil
  show ?case
    by (induction ys rule: rev_induct)
      (auto simp: editDistance_Nil intro: alignment.intros dest: insertLast)
next
  case (snoc c xs)
  show ?case
  proof (induction ys rule: rev_induct)
    case Nil
    from deleteLast [OF snoc.IH [of "[]"], of c] show ?case by (simp add: editDistance_Nil)
  next
    case (snoc d ys)
    show ?case
    proof (cases "c = d")
      case True
      with keepLast [OF \<open>\<And>ys. alignment xs ys (editDistance xs ys)\<close> [of ys], of c]
      show ?thesis by (simp add: editDistance_snoc)
    next
      case False
      let ?up = "editDistance xs (ys @ [d])" and ?left = "editDistance (xs @ [c]) ys"
        and ?diag = "editDistance xs ys"
      have 1: "alignment (xs @ [c]) (ys @ [d]) (Suc ?up)"
        by (rule deleteLast) (rule \<open>\<And>ys. alignment xs ys (editDistance xs ys)\<close>)
      have 2: "alignment (xs @ [c]) (ys @ [d]) (Suc ?left)"
        by (rule insertLast) (rule snoc.IH)
      have 3: "alignment (xs @ [c]) (ys @ [d]) (Suc ?diag)"
        by (rule substituteLast) (rule \<open>\<And>ys. alignment xs ys (editDistance xs ys)\<close>)
      from False 1 2 3 show ?thesis by (simp add: editDistance_snoc min_def)
    qed
  qed
qed

lemma editDistance_least: "alignment xs ys n \<Longrightarrow> editDistance xs ys \<le> n"
proof (induction rule: alignment.induct)
  case finished
  show ?case by (simp add: editDistance_Nil)
next
  case (keepLast xs ys n c)
  then show ?case by (simp add: editDistance_snoc)
next
  case (substituteLast xs ys n c d)
  then show ?case by (auto simp: editDistance_snoc min_def)
next
  case (deleteLast xs ys n c)
  with editDistance_longer(1) [of xs c ys] show ?case by simp
next
  case (insertLast xs ys n d)
  with editDistance_longer(2) [of xs ys d] show ?case by simp
qed

lemma edit_last:
  "edit (ys @ [c]) ys" "edit ys (ys @ [d])" "edit (ys @ [c]) (ys @ [d])"
  using deletion [of ys c "[]"] insertion [of ys "[]" d] substitution [of ys c "[]" d]
  by simp_all

lemma edit_snoc: "edit ys zs \<Longrightarrow> edit (ys @ [c]) (zs @ [c])"
proof (induction rule: edit.induct)
  case (insertion u v e)
  from edit.insertion [of u "v @ [c]" e] show ?case by simp
next
  case (deletion u e v)
  from edit.deletion [of u e "v @ [c]"] show ?case by simp
next
  case (substitution u e v d)
  from edit.substitution [of u e "v @ [c]" d] show ?case by simp
qed

lemma edits_snoc: "edits xs ys n \<Longrightarrow> edits (xs @ [c]) (ys @ [c]) n"
  by (induction rule: edits.induct) (auto intro: edits.intros edit_snoc)

lemma alignment_edits: "alignment xs ys n \<Longrightarrow> edits xs ys n"
proof (induction rule: alignment.induct)
  case finished
  show ?case by (rule no_edit)
next
  case (keepLast xs ys n c)
  then show ?case by (simp add: edits_snoc)
next
  case (substituteLast xs ys n c d)
  from one_more [OF edits_snoc [OF substituteLast.IH, of c] edit_last(3)] show ?case .
next
  case (deleteLast xs ys n c)
  from one_more [OF edits_snoc [OF deleteLast.IH, of c] edit_last(1)] show ?case .
next
  case (insertLast xs ys n d)
  from one_more [OF insertLast.IH edit_last(2)] show ?case .
qed

lemma alignment_same: "alignment xs xs 0"
  by (induction xs rule: rev_induct) (auto intro: alignment.intros)

lemma edit_Nil: "edit [] zs \<Longrightarrow> \<exists>c. zs = [c]"
  by (auto elim: edit.cases)

lemma edit_last_cases:
  assumes "edit (ys @ [d]) zs"
  shows "(\<exists>zs'. zs = zs' @ [d] \<and> edit ys zs') \<or> (\<exists>c. zs = ys @ [d, c]) \<or> zs = ys \<or>
         (\<exists>d'. zs = ys @ [d'])"
  using assms
proof (cases rule: edit.cases)
  case (insertion u v c)
  show ?thesis
  proof (cases v rule: rev_cases)
    case Nil
    with insertion show ?thesis by auto
  next
    case (snoc v' e)
    with insertion have "ys = u @ v'" "e = d" "zs = (u @ [c] @ v') @ [d]" by auto
    with edit.insertion [of u v' c] show ?thesis by blast
  qed
next
  case (deletion u c v)
  show ?thesis
  proof (cases v rule: rev_cases)
    case Nil
    with deletion show ?thesis by auto
  next
    case (snoc v' e)
    with deletion have "ys = u @ [c] @ v'" "e = d" "zs = (u @ v') @ [d]" by auto
    with edit.deletion [of u c v'] show ?thesis by blast
  qed
next
  case (substitution u c v d')
  show ?thesis
  proof (cases v rule: rev_cases)
    case Nil
    with substitution show ?thesis by auto
  next
    case (snoc v' e)
    with substitution have "ys = u @ [c] @ v'" "e = d" "zs = (u @ [d'] @ v') @ [d]" by auto
    with edit.substitution [of u c v' d'] show ?thesis by blast
  qed
qed

lemma costWithin: "alignment xs zs m \<Longrightarrow> m \<le> k \<Longrightarrow> \<exists>m' \<le> k. alignment xs zs m'"
  by blast

lemma alignment_then_edit:
  "alignment xs ys m \<Longrightarrow> edit ys zs \<Longrightarrow> \<exists>m' \<le> Suc m. alignment xs zs m'"
proof (induction arbitrary: zs rule: alignment.induct)
  case finished
  then obtain c where "zs = [c]" by (auto dest: edit_Nil)
  with alignment.insertLast [OF alignment.finished, of c] show ?case by (auto intro: costWithin)
next
  case (keepLast xs ys n c)
  from edit_last_cases [OF keepLast.prems] show ?case
  proof (elim disjE exE conjE)
    fix zs' assume "zs = zs' @ [c]" "edit ys zs'"
    with keepLast.IH [of zs'] show ?thesis
      by (auto intro: costWithin [OF alignment.keepLast])
  next
    fix e assume "zs = ys @ [c, e]"
    with alignment.insertLast [OF alignment.keepLast [OF keepLast.hyps, of c], of e]
    show ?thesis by (auto intro: costWithin)
  next
    assume "zs = ys"
    with alignment.deleteLast [OF keepLast.hyps, of c] show ?thesis by (auto intro: costWithin)
  next
    fix d' assume "zs = ys @ [d']"
    with alignment.substituteLast [OF keepLast.hyps, of c d'] show ?thesis by (auto intro: costWithin)
  qed
next
  case (substituteLast xs ys n c d)
  from edit_last_cases [OF substituteLast.prems] show ?case
  proof (elim disjE exE conjE)
    fix zs' assume "zs = zs' @ [d]" "edit ys zs'"
    with substituteLast.IH [of zs'] show ?thesis
      by (auto intro: costWithin [OF alignment.substituteLast])
  next
    fix e assume "zs = ys @ [d, e]"
    with alignment.insertLast [OF alignment.substituteLast [OF substituteLast.hyps, of c d], of e]
    show ?thesis by (auto intro: costWithin)
  next
    assume "zs = ys"
    with alignment.deleteLast [OF substituteLast.hyps, of c] show ?thesis by (auto intro: costWithin)
  next
    fix d' assume "zs = ys @ [d']"
    with alignment.substituteLast [OF substituteLast.hyps, of c d'] show ?thesis by (auto intro: costWithin)
  qed
next
  case (deleteLast xs ys n c)
  from deleteLast.IH [OF deleteLast.prems] show ?case
    by (auto intro: costWithin [OF alignment.deleteLast])
next
  case (insertLast xs ys n d)
  from edit_last_cases [OF insertLast.prems] show ?case
  proof (elim disjE exE conjE)
    fix zs' assume "zs = zs' @ [d]" "edit ys zs'"
    with insertLast.IH [of zs'] show ?thesis
      by (auto intro: costWithin [OF alignment.insertLast])
  next
    fix e assume "zs = ys @ [d, e]"
    with alignment.insertLast [OF alignment.insertLast [OF insertLast.hyps, of d], of e]
    show ?thesis by (auto intro: costWithin)
  next
    assume "zs = ys"
    with insertLast.hyps show ?thesis by (auto intro: costWithin)
  next
    fix d' assume "zs = ys @ [d']"
    with alignment.insertLast [OF insertLast.hyps, of d'] show ?thesis by (auto intro: costWithin)
  qed
qed

lemma edits_alignment: "edits xs ys n \<Longrightarrow> \<exists>m \<le> n. alignment xs ys m"
proof (induction rule: edits.induct)
  case (no_edit xs)
  from alignment_same [of xs] show ?case by auto
next
  case (one_more xs ys n zs)
  then obtain m where m: "m \<le> n" "alignment xs ys m" by auto
  from alignment_then_edit [OF m(2) one_more.hyps(2)]
  obtain m' where "m' \<le> Suc m" "alignment xs zs m'" by auto
  with m(1) have "m' \<le> Suc n \<and> alignment xs zs m'" by simp
  then show ?case by blast
qed

lemma levenshteinDistance_edits:
  "edits a b (levenshteinDistance a b) \<and> (\<forall>n. edits a b n \<longrightarrow> levenshteinDistance a b \<le> n)"
proof (intro conjI allI impI)
  show "edits a b (levenshteinDistance a b)"
    by (simp add: levenshteinDistance_editDistance alignment_edits alignment_editDistance)
next
  fix n assume "edits a b n"
  then obtain m where "m \<le> n" "alignment a b m" by (auto dest: edits_alignment)
  with editDistance_least [of a b m] show "levenshteinDistance a b \<le> n"
    by (simp add: levenshteinDistance_editDistance)
qed


section \<open>The engine, step by step\<close>

lemma includes_str_sublist: "includes_str s t = sublist t s"
  by (induction s) (simp_all add: sublist_Cons_right)

lemma isCloseMatch_threshold:
  "isCloseMatch c a =
     (if length c \<le> 10 then editDistance c a \<le> 2
      else editDistance c a \<le> max 3 (length c div 10))"
  by (simp add: isCloseMatch_def levenshteinDistance_editDistance Let_def)

lemma endQuiz_active:
  "currentQuiz k = Some quiz \<Longrightarrow>
   endQuiz r k w = (k\<lparr>currentQuiz := None\<rparr>, optionalCall (onQuizEnd (options k)) r w)"
  by (simp add: endQuiz_def)

lemma checkAnswer_respond:
  assumes "currentQuiz k = Some quiz" "chatId quiz = chat" "correctAnswer quiz = normalizeAnswer correct"
  shows "checkAnswer chat candidate key k w = respond (classify candidate correct) chat key k w"
  using assms
  by (simp add: checkAnswer_def respond_def classify_def classifyBy_def normalizeAnswer_def Let_def
      includes_str_sublist isCloseMatch_threshold endQuiz_active
      split: prod.splits sum.splits)

lemma startQuiz_started:
  assumes "startQuiz chat quest answer replyTo now k0 w0 = (Inr (), k, w1)"
  shows "currentQuiz k0 = None \<and>
         k = k0\<lparr>currentQuiz := Some \<lparr>active = True, question = quest,
                 correctAnswer = normalizeAnswer answer, startTime = now, chatId = chat,
                 messageId = replyTo\<rparr>\<rparr>"
  using assms
  by (auto simp: startQuiz_def normalizeAnswer_def Let_def split: option.splits prod.splits sum.splits)

lemma respond_recording:
  assumes "sender k = recordingSender" "options k = broadcastOptions"
  shows "respond cls chat key k w =
           (Inr (), (if cls = Exact then k\<lparr>currentQuiz := None\<rparr> else k),
            w @ reaction cls chat key)"
  using assms
  by (cases cls)
    (simp_all add: respond_def reaction_def recordingSender_def broadcastOptions_def
      optionalCall_def)

lemma normalize_samples:
  "normalizeAnswer ''Paris'' = ''paris''"
  "normalizeAnswer ''Pariss'' = ''pariss''"
  "normalizeAnswer ''Pari'' = ''pari''"
  "normalizeAnswer ''The answer is Paris'' = ''the answer is paris''"
  "normalizeAnswer ''London'' = ''london''"
  "normalizeAnswer ''  PARIX '' = ''parix''"
  "normalizeAnswer ''4'' = ''4''"
  "normalizeAnswer ''Pablo      '' = ''pablo''"
  by code_simp+

lemma parisQuiz_eq:
  "parisQuiz = createKotaete\<lparr>currentQuiz := Some \<lparr>active = True, question = ''Q'',
                 correctAnswer = ''paris'', startTime = 0, chatId = ''G1'',
                 messageId = None\<rparr>\<rparr>"
  using normalize_samples(1)
  by (simp add: parisQuiz_def startQuiz_def createKotaete_def recordingSender_def Let_def
      normalizeAnswer_def)

lemma startQuiz_Paris:
  "startQuiz ''G1'' ''Q'' ''Paris'' None 0 createKotaete [] =
     (Inr (), parisQuiz, [SentMessage ''G1'' (quizMessage ''Q''),
        QuizStarted \<lparr>active = True, question = ''Q'', correctAnswer = ''paris'',
          startTime = 0, chatId = ''G1'', messageId = None\<rparr>])"
  using normalize_samples(1)
  by (simp add: parisQuiz_eq startQuiz_def createKotaete_def recordingSender_def
      broadcastOptions_def optionalCall_def Let_def normalizeAnswer_def)

lemma parisQuiz_recording:
  "sender parisQuiz = recordingSender" "options parisQuiz = broadcastOptions"
  "currentQuiz parisQuiz = Some \<lparr>active = True, question = ''Q'',
                 correctAnswer = ''paris'', startTime = 0, chatId = ''G1'',
                 messageId = None\<rparr>"
  by (simp_all add: parisQuiz_eq createKotaete_def)

lemma checkAnswer_parisQuiz:
  "checkAnswer ''G1'' candidate key parisQuiz w =
     (Inr (),
      (if classify candidate ''Paris'' = Exact then parisQuiz\<lparr>currentQuiz := None\<rparr>
       else parisQuiz),
      w @ reaction (classify candidate ''Paris'') ''G1'' key)"
proof -
  have "checkAnswer ''G1'' candidate key parisQuiz w =
          respond (classify candidate ''Paris'') ''G1'' key parisQuiz w"
    by (rule checkAnswer_respond [OF parisQuiz_recording(3)]) (simp_all add: normalize_samples)
  then show ?thesis by (simp add: respond_recording parisQuiz_recording)
qed

lemma classify_samples:
  "classify ''Pariss'' ''Paris'' = Partial"
  "classify ''Pari'' ''Paris'' = Partial"
  "classify ''The answer is Paris'' ''Paris'' = Partial"
  "classify ''Paris'' ''Paris'' = Exact"
  "classify ''London'' ''Paris'' = NoMatch"
  "classify ''  PARIX '' ''Paris'' = Close"
  "classify ''Pablo      '' ''Paris'' = NoMatch"
  by (simp_all add: classify_def classifyBy_def normalize_samples sublist_code editDistance_def)

lemma classify_spec_padded: "classify_spec ''Pablo      '' ''Paris'' = Close"
  by (simp add: classify_spec_def classifyBy_def normalize_samples sublist_code editDistance_def)

lemma length_normalizeAnswer: "length (normalizeAnswer s) \<le> length s"
proof -
  have "length (rev (dropWhile P (rev (dropWhile P xs)))) \<le> length xs" for P and xs :: string
    using length_dropWhile_le [of P "rev (dropWhile P xs)"] length_dropWhile_le [of P xs]
    by simp
  from this [of isWhiteSpace "toLowerCase s"] show ?thesis
    by (simp add: normalizeAnswer_def trim_def toLowerCase_def)
qed

lemma classify_cases:
  "(classify candidate correct = Exact) = (normalizeAnswer candidate = normalizeAnswer correct)"
  "(classify candidate correct = Partial) =
     (normalizeAnswer candidate \<noteq> normalizeAnswer correct \<and>
      (includes_str (normalizeAnswer candidate) (normalizeAnswer correct) \<or>
       includes_str (normalizeAnswer correct) (normalizeAnswer candidate)))"
  "(classify candidate correct = Close) =
     (normalizeAnswer candidate \<noteq> normalizeAnswer correct \<and>
      \<not> includes_str (normalizeAnswer candidate) (normalizeAnswer correct) \<and>
      \<not> includes_str (normalizeAnswer correct) (normalizeAnswer candidate) \<and>
      levenshteinDistance (normalizeAnswer candidate) (normalizeAnswer correct)
        \<le> (if length (normalizeAnswer candidate) \<le> 10 then 2
            else max 3 (length (normalizeAnswer candidate) div 10)))"
  "(classify candidate correct = NoMatch) =
     (normalizeAnswer candidate \<noteq> normalizeAnswer correct \<and>
      \<not> includes_str (normalizeAnswer candidate) (normalizeAnswer correct) \<and>
      \<not> includes_str (normalizeAnswer correct) (normalizeAnswer candidate) \<and>
      \<not> levenshteinDistance (normalizeAnswer candidate) (normalizeAnswer correct)
        \<le> (if length (normalizeAnswer candidate) \<le> 10 then 2
            else max 3 (length (normalizeAnswer candidate) div 10)))"
  by (auto simp: classify_def classifyBy_def includes_str_sublist
      levenshteinDistance_editDistance)


section \<open>The answer matcher\<close>

text \<open>
  Claim C1, as amended. Once a quiz was started with a correct answer, a check of a
  candidate in that chat does what the class of the candidate prescribes, and the class
  is decided in this order, the first that applies: both strings are lower-cased and
  trimmed; exact if the normalized strings are equal; partial if one normalized string
  contains the other; close if the distance of the normalized strings is at most 2 for a
  candidate of length at most 10, and at most \<open>max 3 (L div 10)\<close> for a longer one; none
  otherwise. The length \<open>L\<close> is that of the normalized candidate, never that of the
  correct answer. The distance is the Levenshtein distance, by
  \<open>levenshteinDistance_edits\<close>.
\<close>

theorem checkAnswer_classify:
  assumes "startQuiz chat quest correct replyTo now k0 w0 = (Inr (), k, w1)"
  shows "checkAnswer chat candidate key k w =
           respond (classify candidate correct) chat key k w \<and>
         (classify candidate correct = Exact) =
           (normalizeAnswer candidate = normalizeAnswer correct) \<and>
         (classify candidate correct = Partial) =
           (normalizeAnswer candidate \<noteq> normalizeAnswer correct \<and>
            (includes_str (normalizeAnswer candidate) (normalizeAnswer correct) \<or>
             includes_str (normalizeAnswer correct) (normalizeAnswer candidate))) \<and>
         (classify candidate correct = Close) =
           (normalizeAnswer candidate \<noteq> normalizeAnswer correct \<and>
            \<not> includes_str (normalizeAnswer candidate) (normalizeAnswer correct) \<and>
            \<not> includes_str (normalizeAnswer correct) (normalizeAnswer candidate) \<and>
            levenshteinDistance (normalizeAnswer candidate) (normalizeAnswer correct)
              \<le> (if length (normalizeAnswer candidate) \<le> 10 then 2
                  else max 3 (length (normalizeAnswer candidate) div 10))) \<and>
         (classify candidate correct = NoMatch) =
           (normalizeAnswer candidate \<noteq> normalizeAnswer correct \<and>
            \<not> includes_str (normalizeAnswer candidate) (normalizeAnswer correct) \<and>
            \<not> includes_str (normalizeAnswer correct) (normalizeAnswer candidate) \<and>
            \<not> levenshteinDistance (normalizeAnswer candidate) (normalizeAnswer correct)
              \<le> (if length (normalizeAnswer candidate) \<le> 10 then 2
                  else max 3 (length (normalizeAnswer candidate) div 10)))"
proof -
  from startQuiz_started [OF assms]
  have "currentQuiz k = Some \<lparr>active = True, question = quest,
          correctAnswer = normalizeAnswer correct, startTime = now, chatId = chat,
          messageId = replyTo\<rparr>" by simp
  from checkAnswer_respond [OF this]
  have "checkAnswer chat candidate key k w =
          respond (classify candidate correct) chat key k w" by simp
  then show ?thesis by (simp only: classify_cases simp_thms)
qed

theorem checkAnswer_classify_witness:
  "startQuiz ''G1'' ''Q'' ''Paris'' None 0 createKotaete [] =
     (Inr (), parisQuiz, [SentMessage ''G1'' (quizMessage ''Q''),
        QuizStarted \<lparr>active = True, question = ''Q'', correctAnswer = ''paris'',
          startTime = 0, chatId = ''G1'', messageId = None\<rparr>]) \<and>
   checkAnswer ''G1'' ''  PARIX '' messageRef parisQuiz [] =
     respond (classify ''  PARIX '' ''Paris'') ''G1'' messageRef parisQuiz [] \<and>
   classify ''  PARIX '' ''Paris'' = Close \<and>
   levenshteinDistance (normalizeAnswer ''  PARIX '') (normalizeAnswer ''Paris'') \<le> 2"
  using checkAnswer_classify [OF startQuiz_Paris, of "''  PARIX ''" messageRef "[]"]
    startQuiz_Paris classify_samples(6)
  by (simp add: normalize_samples)

text \<open>
  The claim as it stands takes \<open>L\<close> from the candidate as submitted. White space around
  the candidate counts in that length and not in the one the program uses: "Pablo"
  followed by six blanks has length 11 and is three edits from "paris", which the
  threshold for length 11 allows and the threshold for length 5 does not. The
  specification's matcher says close; the engine sends no reaction.
\<close>

theorem padded_candidate_counterexample:
  "classify_spec ''Pablo      '' ''Paris'' = Close \<and>
   length ''Pablo      '' = 11 \<and>
   levenshteinDistance (normalizeAnswer ''Pablo      '') (normalizeAnswer ''Paris'') = 3 \<and>
   checkAnswer ''G1'' ''Pablo      '' messageRef parisQuiz [] = (Inr (), parisQuiz, []) \<and>
   respond (classify_spec ''Pablo      '' ''Paris'') ''G1'' messageRef parisQuiz [] =
     (Inr (), parisQuiz, [SentReact ''G1'' magnifier messageRef])"
  by (simp add: classify_spec_padded checkAnswer_parisQuiz classify_samples reaction_def
      respond_recording parisQuiz_recording normalize_samples
      levenshteinDistance_editDistance editDistance_def)

text \<open>
  Claim C2, as amended. With the quiz answer "Paris", the candidates "Pariss", "Pari" and
  "The answer is Paris" are partial matches, "Paris" is the exact match and ends the
  quiz, and "London" is no match.
\<close>

theorem concrete_classifications:
  "checkAnswer ''G1'' ''Pariss'' messageRef parisQuiz [] =
     (Inr (), parisQuiz, reaction Partial ''G1'' messageRef) \<and>
   checkAnswer ''G1'' ''Pari'' messageRef parisQuiz [] =
     (Inr (), parisQuiz, reaction Partial ''G1'' messageRef) \<and>
   checkAnswer ''G1'' ''The answer is Paris'' messageRef parisQuiz [] =
     (Inr (), parisQuiz, reaction Partial ''G1'' messageRef) \<and>
   checkAnswer ''G1'' ''Paris'' messageRef parisQuiz [] =
     (Inr (), parisQuiz\<lparr>currentQuiz := None\<rparr>, reaction Exact ''G1'' messageRef) \<and>
   checkAnswer ''G1'' ''London'' messageRef parisQuiz [] =
     (Inr (), parisQuiz, reaction NoMatch ''G1'' messageRef)"
  by (simp add: checkAnswer_parisQuiz classify_samples)

text \<open>
  The claim as it stands calls "Pariss" and "Pari" close. Each is one edit away from
  "paris", but each also contains it or is contained in it, and containment is tested
  first: the engine answers with the reaction of a partial match, which is not that of a
  close one.
\<close>

theorem Pariss_counterexample:
  "checkAnswer ''G1'' ''Pariss'' messageRef parisQuiz [] =
     (Inr (), parisQuiz, [SentReact ''G1'' sparkles messageRef]) \<and>
   checkAnswer ''G1'' ''Pari'' messageRef parisQuiz [] =
     (Inr (), parisQuiz, [SentReact ''G1'' sparkles messageRef]) \<and>
   [SentReact ''G1'' sparkles messageRef] \<noteq> reaction Close ''G1'' messageRef \<and>
   levenshteinDistance ''pariss'' ''paris'' = 1 \<and>
   levenshteinDistance ''pari'' ''paris'' = 1"
  by (simp add: checkAnswer_parisQuiz classify_samples reaction_def sparkles_def magnifier_def
      levenshteinDistance_editDistance editDistance_def)


section \<open>The quiz engine\<close>

text \<open>
  Claim C3. While a session is active, \<open>startQuiz\<close> fails with the error "A quiz is
  already active", whatever its arguments; the world is the one it was called in, so
  nothing was sent, and the engine is the one it was called on, so every field of the
  session is as before.
\<close>

theorem startQuiz_while_active:
  assumes "currentQuiz k = Some quiz"
  shows "startQuiz chat quest answer replyTo now k w =
           (Inl (Error ''A quiz is already active''), k, w) \<and>
         getQuiz k = Some quiz"
  using assms by (simp add: startQuiz_def getQuiz_def)

theorem startQuiz_while_active_witness:
  "currentQuiz parisQuiz = Some \<lparr>active = True, question = ''Q'',
      correctAnswer = ''paris'', startTime = 0, chatId = ''G1'', messageId = None\<rparr> \<and>
   startQuiz ''G2'' ''Q2'' ''Rome'' (Some ''m7'') 5 parisQuiz [] =
     (Inl (Error ''A quiz is already active''), parisQuiz, []) \<and>
   getQuiz parisQuiz = Some \<lparr>active = True, question = ''Q'',
      correctAnswer = ''paris'', startTime = 0, chatId = ''G1'', messageId = None\<rparr>"
  using startQuiz_while_active [OF parisQuiz_recording(3),
      of "''G2''" "''Q2''" "''Rome''" "Some ''m7''" 5 "[]"]
    parisQuiz_recording(3)
  by simp


lemma fourQuiz_eq:
  "fourQuiz = createKotaete\<lparr>currentQuiz := Some \<lparr>active = True, question = ''Q'',
                 correctAnswer = ''4'', startTime = 0, chatId = ''G1'',
                 messageId = None\<rparr>\<rparr>"
  using normalize_samples(7)
  by (simp add: fourQuiz_def startQuiz_def createKotaete_def recordingSender_def Let_def
      normalizeAnswer_def)

lemma startQuiz_4:
  "startQuiz ''G1'' ''Q'' ''4'' None 0 createKotaete [] =
     (Inr (), fourQuiz, [SentMessage ''G1'' (quizMessage ''Q''),
        QuizStarted \<lparr>active = True, question = ''Q'', correctAnswer = ''4'',
          startTime = 0, chatId = ''G1'', messageId = None\<rparr>])"
  using normalize_samples(7)
  by (simp add: fourQuiz_eq startQuiz_def createKotaete_def recordingSender_def
      broadcastOptions_def optionalCall_def Let_def normalizeAnswer_def)

text \<open>
  Claim C4. After \<open>startQuiz\<close> has succeeded, a check in the same chat of a content that
  normalizes to the normalized answer sends the correct-reaction, then the confirmation
  message, then ends the quiz with the reason \<open>Answered\<close>, which fires the end
  notification; afterwards no quiz is active. The two sends are taken to succeed: a send
  that throws ends the call there, as every transport failure does.
\<close>

theorem exact_answer_ends_quiz:
  assumes start: "startQuiz chat quest answer replyTo now k0 w0 = (Inr (), k, w1)"
    and exact: "normalizeAnswer content = normalizeAnswer answer"
    and react: "sendReact (sender k) chat check_mark key w = (Inr (), w2)"
    and confirm: "sendMessage (sender k) chat correctMessage w2 = (Inr (), w3)"
  shows "checkAnswer chat content key k w =
           (Inr (), fst (endQuiz Answered k w3), snd (endQuiz Answered k w3)) \<and>
         snd (endQuiz Answered k w3) = optionalCall (onQuizEnd (options k)) Answered w3 \<and>
         \<not> isQuizActive (fst (endQuiz Answered k w3))"
proof -
  from startQuiz_started [OF start]
  have q: "currentQuiz k = Some \<lparr>active = True, question = quest,
          correctAnswer = normalizeAnswer answer, startTime = now, chatId = chat,
          messageId = replyTo\<rparr>" by simp
  with exact react confirm show ?thesis
    by (simp add: checkAnswer_def normalizeAnswer_def endQuiz_active isQuizActive_def)
qed

theorem exact_answer_ends_quiz_witness:
  "checkAnswer ''G1'' ''4'' messageRef fourQuiz [] =
     (Inr (), fourQuiz\<lparr>currentQuiz := None\<rparr>,
      [SentReact ''G1'' check_mark messageRef, SentMessage ''G1'' correctMessage,
       QuizEnded Answered]) \<and>
   \<not> isQuizActive (fourQuiz\<lparr>currentQuiz := None\<rparr>)"
proof -
  have r: "sendReact (sender fourQuiz) ''G1'' check_mark messageRef [] =
             (Inr (), [SentReact ''G1'' check_mark messageRef])"
    by (simp add: fourQuiz_eq createKotaete_def recordingSender_def)
  have m: "sendMessage (sender fourQuiz) ''G1'' correctMessage
             [SentReact ''G1'' check_mark messageRef] =
             (Inr (), [SentReact ''G1'' check_mark messageRef,
                       SentMessage ''G1'' correctMessage])"
    by (simp add: fourQuiz_eq createKotaete_def recordingSender_def)
  have e: "endQuiz Answered fourQuiz
             [SentReact ''G1'' check_mark messageRef, SentMessage ''G1'' correctMessage] =
             (fourQuiz\<lparr>currentQuiz := None\<rparr>,
              [SentReact ''G1'' check_mark messageRef, SentMessage ''G1'' correctMessage,
               QuizEnded Answered])"
    by (simp add: endQuiz_def fourQuiz_eq createKotaete_def broadcastOptions_def
        optionalCall_def)
  from exact_answer_ends_quiz [OF startQuiz_4 refl r m] e show ?thesis by simp
qed

text \<open>
  Claim C6. A check made while no quiz is active, or in a chat other than the one of the
  active session, does nothing: it returns normally, the engine is unchanged and so is
  the world, for every sender and every callback, so nothing was sent and nothing fired.
\<close>

theorem checkAnswer_ignored:
  assumes "currentQuiz k = None \<or> (\<exists>quiz. currentQuiz k = Some quiz \<and> chatId quiz \<noteq> chat)"
  shows "checkAnswer chat content key k w = (Inr (), k, w)"
  using assms by (auto simp: checkAnswer_def)

theorem checkAnswer_ignored_witness:
  "checkAnswer ''G1'' ''Paris'' messageRef createKotaete [] = (Inr (), createKotaete, []) \<and>
   checkAnswer ''G2'' ''Paris'' messageRef parisQuiz [] = (Inr (), parisQuiz, [])"
proof -
  have 1: "currentQuiz createKotaete = None \<or>
           (\<exists>quiz. currentQuiz createKotaete = Some quiz \<and> chatId quiz \<noteq> ''G1'')"
    by (simp add: createKotaete_def)
  have 2: "currentQuiz parisQuiz = None \<or>
           (\<exists>quiz. currentQuiz parisQuiz = Some quiz \<and> chatId quiz \<noteq> ''G2'')"
    by (simp add: parisQuiz_recording(3))
  from checkAnswer_ignored [OF 1] checkAnswer_ignored [OF 2] show ?thesis by simp
qed

text \<open>
  Claim C7. For each of the three reasons, \<open>endQuiz\<close> on an active session clears the
  session and applies the end callback once, to that reason (where the engine was built
  without an end callback there is nobody to notify, and the session is cleared all the
  same); \<open>endQuiz\<close> on an idle engine changes neither the engine nor the world.
\<close>

theorem endQuiz_notifies_once:
  "(currentQuiz k = Some quiz \<and> onQuizEnd (options k) = Some notify \<longrightarrow>
      endQuiz r k w = (k\<lparr>currentQuiz := None\<rparr>, notify r w) \<and>
      getQuiz (fst (endQuiz r k w)) = None) \<and>
   (currentQuiz k = Some quiz \<and> onQuizEnd (options k) = None \<longrightarrow>
      endQuiz r k w = (k\<lparr>currentQuiz := None\<rparr>, w)) \<and>
   (currentQuiz k = None \<longrightarrow> endQuiz r k w = (k, w))"
  by (simp add: endQuiz_def optionalCall_def getQuiz_def)

theorem endQuiz_notifies_once_witness:
  "endQuiz Cancelled parisQuiz [] = (parisQuiz\<lparr>currentQuiz := None\<rparr>, [QuizEnded Cancelled]) \<and>
   endQuiz Timeout parisQuiz [] = (parisQuiz\<lparr>currentQuiz := None\<rparr>, [QuizEnded Timeout]) \<and>
   endQuiz Answered parisQuiz [] = (parisQuiz\<lparr>currentQuiz := None\<rparr>, [QuizEnded Answered]) \<and>
   endQuiz Cancelled createKotaete [] = (createKotaete, [])"
proof -
  have a: "currentQuiz parisQuiz = Some \<lparr>active = True, question = ''Q'',
      correctAnswer = ''paris'', startTime = 0, chatId = ''G1'', messageId = None\<rparr> \<and>
      onQuizEnd (options parisQuiz) = Some (\<lambda>r w. w @ [QuizEnded r])"
    by (simp add: parisQuiz_recording broadcastOptions_def)
  have i: "currentQuiz createKotaete = None" by (simp add: createKotaete_def)
  from endQuiz_notifies_once [of parisQuiz _ _ Cancelled "[]"]
    endQuiz_notifies_once [of parisQuiz _ _ Timeout "[]"]
    endQuiz_notifies_once [of parisQuiz _ _ Answered "[]"]
    endQuiz_notifies_once [of createKotaete _ _ Cancelled "[]"] a i
  show ?thesis by simp
qed

text \<open>
  Claim C10. If the send of the question throws while the engine is idle, \<open>startQuiz\<close>
  ends with that very error, the engine is unchanged, so no session exists and
  \<open>getQuiz\<close> is absent, and the world is the one the failed send left: the start callback
  was not applied.
\<close>

theorem startQuiz_send_fails:
  assumes "currentQuiz k = None"
    and "sendMessage (sender k) chat (quizMessage quest) w = (Inl e, w1)"
  shows "startQuiz chat quest answer replyTo now k w = (Inl e, k, w1) \<and>
         getQuiz k = None \<and> \<not> isQuizActive k"
  using assms by (simp add: startQuiz_def getQuiz_def isQuizActive_def)

theorem startQuiz_send_fails_witness:
  "startQuiz ''G1'' ''Q'' ''Paris'' None 0 disconnectedKotaete [] =
     (Inl (Error ''Not connected''), disconnectedKotaete, []) \<and>
   getQuiz disconnectedKotaete = None \<and> \<not> isQuizActive disconnectedKotaete"
proof -
  have 1: "currentQuiz disconnectedKotaete = None" by (simp add: disconnectedKotaete_def)
  have 2: "sendMessage (sender disconnectedKotaete) ''G1'' (quizMessage ''Q'') [] =
             (Inl (Error ''Not connected''), [])"
    by (simp add: disconnectedKotaete_def disconnectedSender_def)
  from startQuiz_send_fails [OF 1 2] show ?thesis by simp
qed


section \<open>The edit distance is symmetric\<close>

text \<open>
  Claim C8. For all strings \<open>a\<close> and \<open>b\<close> the distance the matcher computes from \<open>a\<close>
  to \<open>b\<close> is the one it computes from \<open>b\<close> to \<open>a\<close>.
\<close>

theorem levenshteinDistance_symmetric: "levenshteinDistance a b = levenshteinDistance b a"
  by (simp add: levenshteinDistance_editDistance editDistance_def editTable_sym [of a b])


section \<open>Identity resolution and the mention filter\<close>

lemma resolve_log:
  "resolveAndSanitizePhoneNumber c jid log = (canonical c jid, log @ callsOf c jid)"
  by (simp add: resolveAndSanitizePhoneNumber_def canonical_def callsOf_def Let_def
      split: option.splits)

lemma callsOf_cases:
  "callsOf c jid = [Resolve jid] \<or> callsOf c jid = [Resolve jid, GetPNForLID jid]"
  by (simp add: resolveAndSanitizePhoneNumber_def callsOf_def Let_def split: option.splits)

lemma callsOf_first: "callsOf c jid \<noteq> [] \<and> hd (callsOf c jid) = Resolve jid"
  using callsOf_cases [of c jid] by auto

lemma mentionLoop_scan:
  "mentionLoop c userPn mentions log =
     ((\<exists>m \<in> set mentions. canonical c m = userPn),
      log @ concat (map (callsOf c) (uptoFirst (\<lambda>m. canonical c m = userPn) mentions)))"
  by (induction mentions arbitrary: log) (auto simp: resolve_log)

lemma resolve_samples:
  "resolveAndSanitizePhoneNumber (clientWith directory) ''628111:5@s.whatsapp.net'' [] =
     (''628111'', [Resolve ''628111:5@s.whatsapp.net''])"
  "resolveAndSanitizePhoneNumber (clientWith directory) ''1@s.whatsapp.net'' [] =
     (''1'', [Resolve ''1@s.whatsapp.net''])"
  "resolveAndSanitizePhoneNumber (clientWith directory) ''99@lid'' [] =
     (''628111'', [Resolve ''99@lid'', GetPNForLID ''99@lid''])"
  "resolveAndSanitizePhoneNumber (clientWith directory) ''7@lid'' [] =
     (''7@lid'', [Resolve ''7@lid'', GetPNForLID ''7@lid''])"
  by code_simp+

text \<open>
  Claim C5, as amended. \<open>isUserMentioned\<close> resolves the bot address first, once, then
  the entries of the mention list in order up to the first whose canonical form is that
  of the bot, and returns true exactly if there is such an entry; no entry after it is
  resolved. For an empty list it returns false after the one resolution of the bot
  address, and resolves nothing else.
\<close>

theorem isUserMentioned_scan:
  "isUserMentioned c mentions userJid log =
     ((\<exists>m \<in> set mentions. canonical c m = canonical c userJid),
      log @ callsOf c userJid @
        concat (map (callsOf c)
          (uptoFirst (\<lambda>m. canonical c m = canonical c userJid) mentions))) \<and>
   isUserMentioned c [] userJid log = (False, log @ callsOf c userJid) \<and>
   callsOf c userJid \<noteq> [] \<and> hd (callsOf c userJid) = Resolve userJid"
  by (simp add: isUserMentioned_def resolve_log mentionLoop_scan callsOf_first)

theorem isUserMentioned_scan_witness:
  "isUserMentioned (clientWith directory) [''1@s.whatsapp.net'', ''99@lid'', ''7@lid'']
     ''628111:5@s.whatsapp.net'' [] =
     (True, [Resolve ''628111:5@s.whatsapp.net'', Resolve ''1@s.whatsapp.net'',
             Resolve ''99@lid'', GetPNForLID ''99@lid'']) \<and>
   isUserMentioned (clientWith directory) [] ''628111:5@s.whatsapp.net'' [] =
     (False, [Resolve ''628111:5@s.whatsapp.net''])"
  using isUserMentioned_scan [of "clientWith directory"
      "[''1@s.whatsapp.net'', ''99@lid'', ''7@lid'']" "''628111:5@s.whatsapp.net''" "[]"]
  by (simp add: canonical_def callsOf_def resolve_samples)

text \<open>
  The claim as it stands has an empty mention list answered without any resolution call.
  The bot address is resolved before the list is looked at: with an empty list the log
  shows that resolution, and the directory lookup too when the bot address is a linked
  identity.
\<close>

theorem empty_mentions_counterexample:
  "isUserMentioned (clientWith directory) [] ''99@lid'' [] =
     (False, [Resolve ''99@lid'', GetPNForLID ''99@lid'']) \<and>
   isUserMentioned (clientWith directory) [] ''628111:5@s.whatsapp.net'' [] =
     (False, [Resolve ''628111:5@s.whatsapp.net''])"
  by (simp add: isUserMentioned_def resolve_samples)

text \<open>
  Phone addresses: the device segment and the server name are stripped, and what is left
  is the digits the address began with.
\<close>

lemma isDigit_not_colon: "isDigit c \<Longrightarrow> c \<noteq> CHR '':''"
  by (auto simp: isDigit_def)

lemma isDigit_not_at: "isDigit c \<Longrightarrow> c \<noteq> CHR ''@''"
  by (auto simp: isDigit_def)

lemma not_isDigit_at: "\<not> isDigit CHR ''@''"
  by (simp add: isDigit_def)

lemma stripDeviceSuffix_device:
  assumes "list_all isDigit ds" "list_all isDigit dev" "dev \<noteq> []"
  shows "stripDeviceSuffix (ds @ CHR '':'' # dev @ ''@s.whatsapp.net'') = ds"
  using assms(1)
proof (induction ds)
  case Nil
  have "takeWhile isDigit (dev @ ''@s.whatsapp.net'') = dev"
    using assms(2) by (simp add: list_all_iff not_isDigit_at)
  moreover have "dropWhile isDigit (dev @ ''@s.whatsapp.net'') = ''@s.whatsapp.net''"
    using assms(2) by (simp add: list_all_iff not_isDigit_at)
  ultimately show ?case using assms(3) by (simp add: deviceSuffixAt_def)
next
  case (Cons d ds)
  then show ?case by (simp add: deviceSuffixAt_def isDigit_not_colon)
qed

lemma stripDeviceSuffix_server: "stripDeviceSuffix ''@s.whatsapp.net'' = ''@s.whatsapp.net''"
  by (simp add: deviceSuffixAt_def)

lemma stripDeviceSuffix_plain:
  assumes "list_all isDigit ds"
  shows "stripDeviceSuffix (ds @ ''@s.whatsapp.net'') = ds @ ''@s.whatsapp.net''"
  using assms
proof (induction ds)
  case Nil
  show ?case using stripDeviceSuffix_server by simp
next
  case (Cons d ds)
  then show ?case by (simp add: deviceSuffixAt_def isDigit_not_colon)
qed

lemma removeFirst_server:
  assumes "list_all isDigit ds"
  shows "removeFirst ''@s.whatsapp.net'' (ds @ ''@s.whatsapp.net'') = ds"
    and "removeFirst ''@s.whatsapp.net'' ds = ds"
  using assms by (induction ds) (auto simp: not_isDigit_at)

lemma not_lid: "\<not> endsWith (xs @ ''@s.whatsapp.net'') ''@lid''"
proof
  assume "endsWith (xs @ ''@s.whatsapp.net'') ''@lid''"
  then obtain zs where "xs @ ''@s.whatsapp.net'' = zs @ ''@lid''"
    by (auto simp: endsWith_def suffix_def)
  then have "last (xs @ ''@s.whatsapp.net'') = last (zs @ ''@lid'')" by simp
  then show False by simp
qed

lemma phone_address_digits:
  assumes "list_all isDigit ds" "list_all isDigit dev" "dev \<noteq> []"
  shows "canonical c (ds @ CHR '':'' # dev @ ''@s.whatsapp.net'') = ds"
    and "canonical c (ds @ ''@s.whatsapp.net'') = ds"
proof -
  have "\<not> endsWith ((ds @ CHR '':'' # dev) @ ''@s.whatsapp.net'') ''@lid''" by (rule not_lid)
  then show "canonical c (ds @ CHR '':'' # dev @ ''@s.whatsapp.net'') = ds"
    using assms
    by (simp add: canonical_def resolveAndSanitizePhoneNumber_def stripDeviceSuffix_device
        removeFirst_server)
  show "canonical c (ds @ ''@s.whatsapp.net'') = ds"
    using assms(1) not_lid [of ds]
    by (simp add: canonical_def resolveAndSanitizePhoneNumber_def stripDeviceSuffix_plain
        removeFirst_server)
qed

text \<open>
  Claim C9 says that every address resolves to digits only, the fallback included, and
  the comment on \<^verbatim>\<open>resolveAndSanitizePhoneNumber\<close> says the same. A phone address does,
  with or without a device segment (\<open>phone_address_digits\<close>), and so does a linked
  identity the directory knows; a linked identity without a mapping, or resolved by a
  client without a directory, comes back as it went in, suffix and all.
\<close>

theorem unresolved_lid_not_digits:
  "resolveAndSanitizePhoneNumber (clientWith (\<lambda>jid. None)) ''12345@lid'' [] =
     (''12345@lid'', [Resolve ''12345@lid'', GetPNForLID ''12345@lid'']) \<and>
   resolveAndSanitizePhoneNumber \<lparr>sock = None\<rparr> ''12345@lid'' [] =
     (''12345@lid'', [Resolve ''12345@lid'']) \<and>
   \<not> digitsOnly ''12345@lid'' \<and>
   resolveAndSanitizePhoneNumber (clientWith directory) ''99@lid'' [] =
     (''628111'', [Resolve ''99@lid'', GetPNForLID ''99@lid'']) \<and>
   digitsOnly ''628111''"
  by code_simp

end
